theory Spec2Isabelle
  imports Main
begin

section \<open>Values of the host language\<close>

text \<open>
  The field \<open>_pausedDetails\<close> of \<open>thread.ts\<close> is declared optional, starts out
  \<open>undefined\<close> and is assigned \<open>null\<close> by the "resumed" handler, so three kinds of
  value have to be told apart.
\<close>

datatype 'a optional = Undefined | Null | Value 'a

definition absent :: "'a optional \<Rightarrow> bool" where
  "absent v = (case v of Undefined \<Rightarrow> True | Null \<Rightarrow> True | Value x \<Rightarrow> False)"

text \<open>
  \<open>++Thread._lastThreadId\<close> on a \<open>number\<close> (an IEEE-754 double). The counter starts at 0
  and only ever takes this step, so it holds an integer between 0 and \<open>2^53\<close>. Below
  \<open>2^53\<close> the sum \<open>n + 1\<close> is exact; at \<open>2^53\<close> the sum \<open>2^53 + 1\<close> is not
  representable and rounds (ties to even) back to \<open>2^53\<close>.
\<close>

definition pre_increment :: "nat \<Rightarrow> nat" where
  "pre_increment n = (if n < 2 ^ 53 then n + 1 else n)"

text \<open>Truthiness of a string that may be \<open>undefined\<close>: the empty string is falsy.\<close>

definition truthy :: "string option \<Rightarrow> bool" where
  "truthy v = (case v of None \<Rightarrow> False | Some s \<Rightarrow> s \<noteq> [])"

text \<open>\<open>a && b\<close>: the left operand when it is falsy, the right operand otherwise.\<close>

definition js_and :: "string option \<Rightarrow> (string \<Rightarrow> string option) \<Rightarrow> string option" where
  "js_and a b = (case a of None \<Rightarrow> None | Some s \<Rightarrow> if s = [] then Some [] else b s)"

subsection \<open>The built-in Map\<close>

text \<open>
  A \<open>Map\<close> keeps its entries in insertion order; \<open>set\<close> on a key that is present
  replaces the value in place, \<open>values()\<close> lists the values in that order.
\<close>

type_synonym ('k, 'v) js_map = "('k \<times> 'v) list"

fun Map_set :: "'k \<Rightarrow> 'v \<Rightarrow> ('k, 'v) js_map \<Rightarrow> ('k, 'v) js_map" where
  "Map_set k v [] = [(k, v)]"
| "Map_set k v ((k', v') # m) = (if k' = k then (k, v) # m else (k', v') # Map_set k v m)"

definition Map_values :: "('k, 'v) js_map \<Rightarrow> 'v list" where
  "Map_values m = map snd m"

definition Map_get :: "('k, 'v) js_map \<Rightarrow> 'k \<Rightarrow> 'v option" where
  "Map_get m k = map_of m k"

definition Map_clear :: "('k, 'v) js_map \<Rightarrow> ('k, 'v) js_map" where
  "Map_clear m = []"

section \<open>Collaborators\<close>

type_synonym addr = nat
type_synonym target_ref = nat

text \<open>
  A Source handle: an object with an identity, the readable URL it was created with and
  the script id its content getter asks the transport for. The getter of
  \<open>_onScriptParsed\<close> is a closure over \<open>event.scriptId\<close>; nothing in \<open>thread.ts\<close>
  calls it.
\<close>

record source =
  source_ref :: addr
  source_url :: string
  getter_scriptId :: string

text \<open>The fields of \<open>Protocol.Debugger.ScriptParsedEvent\<close> that \<open>thread.ts\<close> reads.\<close>

record scriptParsedEvent =
  scriptId :: string
  url :: string
  sourceMapURL :: "string option"

datatype cdp_domain = Runtime | Debugger

text \<open>What a Thread asks of the protocol client \<open>_target.cdp()\<close>.\<close>

datatype cdp_call =
    On cdp_domain string
  | Enable cdp_domain
  | DebuggerResume

text \<open>What a Thread asks of the registry \<open>_target.sourceContainer()\<close>.\<close>

datatype registry_call =
    AddSource source
  | RemoveSources "source list"
  | AttachSourceMap source string

datatype thread_event = ThreadNameChanged | ThreadPaused | ThreadResumed

text \<open>What the protocol client pushes to its listeners.\<close>

datatype 'p protocol_event =
    ExecutionContextsCleared
  | Paused 'p
  | Resumed
  | ScriptParsed scriptParsedEvent

fun event_domain :: "'p protocol_event \<Rightarrow> cdp_domain" where
  "event_domain ExecutionContextsCleared = Runtime"
| "event_domain (Paused p) = Debugger"
| "event_domain Resumed = Debugger"
| "event_domain (ScriptParsed e) = Debugger"

fun event_name :: "'p protocol_event \<Rightarrow> string" where
  "event_name ExecutionContextsCleared = ''executionContextsCleared''"
| "event_name (Paused p) = ''paused''"
| "event_name Resumed = ''resumed''"
| "event_name (ScriptParsed e) = ''scriptParsed''"

section \<open>The Thread and the world around it\<close>

text \<open>
  The private fields \<open>_target\<close>, \<open>_threadId\<close>, \<open>_threadName\<close>, \<open>_pausedDetails\<close> and
  \<open>_scripts\<close>. The script map is an object of its own: the field holds its address.
\<close>

record 'p thread =
  t_target :: target_ref
  t_threadId :: nat
  t_threadName :: string
  t_pausedDetails :: "'p optional"
  t_scripts :: addr

text \<open>
  Everything outside the Thread object: the static counter \<open>Thread._lastThreadId\<close>, the
  allocator of object identities, the store of Map objects, each Target's document URL,
  and the calls made so far on the protocol client, on the registry and on the Thread's
  own observers (\<open>emit\<close>, with the id of the emitting Thread). A Target owns one Thread,
  so the listeners on a Target's protocol client are that Thread's.
\<close>

record world =
  lastThreadId :: nat
  allocated :: nat
  map_store :: "addr \<Rightarrow> (string, source) js_map"
  target_url :: "target_ref \<Rightarrow> string"
  cdp_log :: "(target_ref \<times> cdp_call) list"
  registry_log :: "(target_ref \<times> registry_call) list"
  notifications :: "(thread_event \<times> nat) list"

type_synonym 'p state = "'p thread \<times> world"

text \<open>The process at start: \<open>private static _lastThreadId: number = 0\<close>, nothing allocated.\<close>

definition process_start :: "(target_ref \<Rightarrow> string) \<Rightarrow> world" where
  "process_start urls =
     \<lparr>lastThreadId = 0, allocated = 0, map_store = (\<lambda>a. []), target_url = urls,
      cdp_log = [], registry_log = [], notifications = []\<rparr>"

definition cdp_send :: "target_ref \<Rightarrow> cdp_call \<Rightarrow> world \<Rightarrow> world" where
  "cdp_send g c w = w\<lparr>cdp_log := cdp_log w @ [(g, c)]\<rparr>"

definition registry_send :: "target_ref \<Rightarrow> registry_call \<Rightarrow> world \<Rightarrow> world" where
  "registry_send g c w = w\<lparr>registry_log := registry_log w @ [(g, c)]\<rparr>"

definition emit :: "thread_event \<Rightarrow> 'p thread \<Rightarrow> world \<Rightarrow> world" where
  "emit e t w = w\<lparr>notifications := notifications w @ [(e, t_threadId t)]\<rparr>"

text \<open>\<open>m.set(k, v)\<close> and \<open>m.clear()\<close> on the Map object at address \<open>a\<close>.\<close>

definition store_set :: "addr \<Rightarrow> string \<Rightarrow> source \<Rightarrow> world \<Rightarrow> world" where
  "store_set a k v w = w\<lparr>map_store := (map_store w)(a := Map_set k v (map_store w a))\<rparr>"

definition store_clear :: "addr \<Rightarrow> world \<Rightarrow> world" where
  "store_clear a w = w\<lparr>map_store := (map_store w)(a := Map_clear (map_store w a))\<rparr>"

text \<open>
  Modelled from the spec: \<open>Source.createWithContentGetter\<close> (\<open>./source\<close> is not among the
  sources). It "creates a Source handle bound to a lazy content-retrieval function": a new
  object, so a new identity, that keeps the URL and the getter it was given.
\<close>

definition createWithContentGetter :: "string \<Rightarrow> string \<Rightarrow> world \<Rightarrow> source \<times> world" where
  "createWithContentGetter readableUrl sid w =
     (\<lparr>source_ref = allocated w, source_url = readableUrl, getter_scriptId = sid\<rparr>,
      w\<lparr>allocated := allocated w + 1\<rparr>)"

subsection \<open>Construction and accessors\<close>

text \<open>
  The field initialiser \<open>_scripts = new Map()\<close>, then the constructor body.
\<close>

definition Thread_new :: "target_ref \<Rightarrow> world \<Rightarrow> 'p state" where
  "Thread_new g w =
     (let a = allocated w;
          w1 = w\<lparr>allocated := a + 1, map_store := (map_store w)(a := [])\<rparr>;
          n = pre_increment (lastThreadId w1)
      in (\<lparr>t_target = g, t_threadId = n, t_threadName = [],
           t_pausedDetails = Undefined, t_scripts = a\<rparr>,
          w1\<lparr>lastThreadId := n\<rparr>))"

definition threadId :: "'p thread \<Rightarrow> nat" where
  "threadId t = t_threadId t"

definition threadName :: "'p thread \<Rightarrow> string" where
  "threadName t = t_threadName t"

definition pausedDetails :: "'p thread \<Rightarrow> 'p optional" where
  "pausedDetails t = t_pausedDetails t"

text \<open>\<open>scripts()\<close> returns the Map object itself, that is, its address.\<close>

definition scripts :: "'p thread \<Rightarrow> addr" where
  "scripts t = t_scripts t"

text \<open>The entries a holder of the Thread reads through \<open>scripts()\<close>.\<close>

definition scripts_of :: "'p state \<Rightarrow> (string, source) js_map" where
  "scripts_of s = map_store (snd s) (scripts (fst s))"

subsection \<open>Methods\<close>

fun resume :: "'p state \<Rightarrow> 'p state" where
  "resume (t, w) = (t, cdp_send (t_target t) DebuggerResume w)"

fun reset :: "'p state \<Rightarrow> 'p state" where
  "reset (t, w) =
     (let scripts = Map_values (map_store w (t_scripts t));
          w1 = store_clear (t_scripts t) w
      in (t, registry_send (t_target t) (RemoveSources scripts) w1))"

fun dispose :: "'p state \<Rightarrow> 'p state" where
  "dispose (t, w) = reset (t, w)"

fun setThreadName :: "string \<Rightarrow> 'p state \<Rightarrow> 'p state" where
  "setThreadName name (t, w) =
     (let t1 = t\<lparr>t_threadName := name\<rparr>
      in (t1, emit ThreadNameChanged t1 w))"

text \<open>
  \<open>_onScriptParsed\<close>. \<open>utils.completeUrl\<close> is not among the sources; it is the parameter
  \<open>completeUrl\<close>, which returns the resolved URL or \<open>undefined\<close> (\<open>None\<close>).
\<close>

fun onScriptParsed ::
  "(string \<Rightarrow> string \<Rightarrow> string option) \<Rightarrow> scriptParsedEvent \<Rightarrow> 'p state \<Rightarrow> 'p state" where
  "onScriptParsed completeUrl event (t, w) =
     (let readableUrl = (if url event \<noteq> [] then url event else ''VM'' @ scriptId event);
          (source, w1) = createWithContentGetter readableUrl (scriptId event) w;
          w2 = store_set (t_scripts t) (scriptId event) source w1;
          w3 = registry_send (t_target t) (AddSource source) w2
      in if truthy (sourceMapURL event) then
           (let resolvedSourceUrl = completeUrl (target_url w3 (t_target t)) (url event);
                resolvedSourceMapUrl =
                  js_and resolvedSourceUrl
                    (\<lambda>u. case sourceMapURL event of None \<Rightarrow> None | Some m \<Rightarrow> completeUrl u m)
            in (case resolvedSourceMapUrl of
                  None \<Rightarrow> (t, w3)
                | Some r \<Rightarrow>
                    if r \<noteq> [] then (t, registry_send (t_target t) (AttachSourceMap source r) w3)
                    else (t, w3)))
         else (t, w3))"

text \<open>The listeners that \<open>initialize\<close> registers for "paused" and "resumed".\<close>

fun on_paused :: "'p \<Rightarrow> 'p state \<Rightarrow> 'p state" where
  "on_paused event (t, w) =
     (let t1 = t\<lparr>t_pausedDetails := Value event\<rparr>
      in (t1, emit ThreadPaused t1 w))"

fun on_resumed :: "'p state \<Rightarrow> 'p state" where
  "on_resumed (t, w) =
     (let t1 = t\<lparr>t_pausedDetails := Null\<rparr>
      in (t1, emit ThreadResumed t1 w))"

text \<open>
  \<open>initialize\<close> suspends twice. \<open>initialize_1\<close> runs up to the first \<open>await\<close> (the
  command \<open>Runtime.enable\<close> has been issued), \<open>initialize_2\<close> from there up to the second
  (\<open>Debugger.enable\<close> has been issued); nothing follows the second.
\<close>

fun initialize_1 :: "'p state \<Rightarrow> 'p state" where
  "initialize_1 (t, w) =
     (let w1 = cdp_send (t_target t) (On Runtime ''executionContextsCleared'') w;
          w2 = cdp_send (t_target t) (Enable Runtime) w1
      in (t, w2))"

fun initialize_2 :: "'p state \<Rightarrow> 'p state" where
  "initialize_2 (t, w) =
     (let w1 = cdp_send (t_target t) (On Debugger ''paused'') w;
          w2 = cdp_send (t_target t) (On Debugger ''resumed'') w1;
          w3 = cdp_send (t_target t) (On Debugger ''scriptParsed'') w2;
          w4 = cdp_send (t_target t) (Enable Debugger) w3
      in (t, w4))"

definition initialize :: "'p state \<Rightarrow> 'p state" where
  "initialize s = initialize_2 (initialize_1 s)"

subsection \<open>Event delivery\<close>

text \<open>
  Modelled from the spec: the push-event subscription of the protocol client (the Target's
  \<open>cdp()\<close> is not among the sources). An event that arrives runs every listener
  registered for it with \<open>on\<close>, in the order of registration; the listeners are the
  closures of \<open>initialize\<close>.
\<close>

definition listenerCount :: "world \<Rightarrow> target_ref \<Rightarrow> cdp_domain \<Rightarrow> string \<Rightarrow> nat" where
  "listenerCount w g d n = length (filter (\<lambda>c. c = (g, On d n)) (cdp_log w))"

fun listener ::
  "(string \<Rightarrow> string \<Rightarrow> string option) \<Rightarrow> 'p protocol_event \<Rightarrow> 'p state \<Rightarrow> 'p state" where
  "listener completeUrl ExecutionContextsCleared s = reset s"
| "listener completeUrl (Paused event) s = on_paused event s"
| "listener completeUrl Resumed s = on_resumed s"
| "listener completeUrl (ScriptParsed event) s = onScriptParsed completeUrl event s"

definition deliver ::
  "(string \<Rightarrow> string \<Rightarrow> string option) \<Rightarrow> 'p protocol_event \<Rightarrow> 'p state \<Rightarrow> 'p state" where
  "deliver completeUrl ev s =
     (listener completeUrl ev ^^
        listenerCount (snd s) (t_target (fst s)) (event_domain ev) (event_name ev)) s"

text \<open>
  What can happen to a Thread after construction: a segment of \<open>initialize\<close> runs, an
  event arrives, or a method is called.
\<close>

datatype 'p action =
    Initialize1
  | Initialize2
  | Deliver "'p protocol_event"
  | CallResume
  | CallDispose
  | CallSetThreadName string

fun step ::
  "(string \<Rightarrow> string \<Rightarrow> string option) \<Rightarrow> 'p action \<Rightarrow> 'p state \<Rightarrow> 'p state" where
  "step completeUrl Initialize1 s = initialize_1 s"
| "step completeUrl Initialize2 s = initialize_2 s"
| "step completeUrl (Deliver ev) s = deliver completeUrl ev s"
| "step completeUrl CallResume s = resume s"
| "step completeUrl CallDispose s = dispose s"
| "step completeUrl (CallSetThreadName name) s = setThreadName name s"

fun run ::
  "(string \<Rightarrow> string \<Rightarrow> string option) \<Rightarrow> 'p action list \<Rightarrow> 'p state \<Rightarrow> 'p state" where
  "run completeUrl [] s = s"
| "run completeUrl (a # as) s = run completeUrl as (step completeUrl a s)"

section \<open>Notions used to state the properties\<close>

text \<open>The calls made on the protocol client, and on the registry, between two worlds.\<close>

definition calls_since :: "world \<Rightarrow> world \<Rightarrow> (target_ref \<times> cdp_call) list" where
  "calls_since w w' = drop (length (cdp_log w)) (cdp_log w')"

definition registry_calls_since ::
  "world \<Rightarrow> world \<Rightarrow> (target_ref \<times> registry_call) list" where
  "registry_calls_since w w' = drop (length (registry_log w)) (registry_log w')"

text \<open>In \<open>xs\<close>, \<open>b\<close> occurs and \<open>a\<close> occurs before the first \<open>b\<close>.\<close>

definition precedes :: "'a \<Rightarrow> 'a \<Rightarrow> 'a list \<Rightarrow> bool" where
  "precedes a b xs = (b \<in> set xs \<and> a \<in> set (takeWhile (\<lambda>x. x \<noteq> b) xs))"

text \<open>The four listeners of \<open>initialize\<close> are registered on the Thread's Target.\<close>

definition listening :: "'p state \<Rightarrow> bool" where
  "listening s =
     (let g = t_target (fst s); w = snd s
      in 0 < listenerCount w g Runtime ''executionContextsCleared''
         \<and> 0 < listenerCount w g Debugger ''paused''
         \<and> 0 < listenerCount w g Debugger ''resumed''
         \<and> 0 < listenerCount w g Debugger ''scriptParsed'')"

text \<open>The payload of the last "paused" event among the actions, if there is one.\<close>

fun last_pause :: "'p action list \<Rightarrow> 'p option" where
  "last_pause [] = None"
| "last_pause (a # as) =
     (case last_pause as of
        Some p \<Rightarrow> Some p
      | None \<Rightarrow> (case a of Deliver (Paused p) \<Rightarrow> Some p | _ \<Rightarrow> None))"

text \<open>\<open>new Thread(g)\<close> for each Target of a list, in order.\<close>

fun construct :: "target_ref list \<Rightarrow> world \<Rightarrow> 'p thread list \<times> world" where
  "construct [] w = ([], w)"
| "construct (g # gs) w =
     (let (t, w1) = Thread_new g w;
          (ts, w2) = construct gs w1
      in (t # ts, w2))"

text \<open>
  What holds of a Thread's script map as long as only the Thread writes to it: the keys
  are distinct (as in every Map), each handle is stored under the script id its getter
  asks for, and each handle is an object that exists.
\<close>

definition well_formed :: "'p state \<Rightarrow> bool" where
  "well_formed s =
     (distinct (map fst (scripts_of s))
      \<and> list_all (\<lambda>(k, src). getter_scriptId src = k \<and> source_ref src < allocated (snd s))
           (scripts_of s))"

text \<open>The handle \<open>src\<close> exists and the script map holds it under no key but \<open>k\<close>.\<close>

definition held_only_at :: "source \<Rightarrow> string \<Rightarrow> 'p state \<Rightarrow> bool" where
  "held_only_at src k s =
     (source_ref src < allocated (snd s)
      \<and> list_all (\<lambda>(k', v). v = src \<longrightarrow> k' = k) (scripts_of s))"

text \<open>The handle \<open>src\<close> exists and the script map does not hold it.\<close>

definition not_held :: "source \<Rightarrow> 'p state \<Rightarrow> bool" where
  "not_held src s =
     (source_ref src < allocated (snd s) \<and> src \<notin> set (Map_values (scripts_of s)))"

subsection \<open>Sample inputs\<close>

text \<open>
  A stand-in for \<open>utils.completeUrl\<close> on the URLs of the samples: it resolves
  \<open>/app.js\<close> against \<open>https://x/index.html\<close> and \<open>app.js.map\<close> against the result,
  resolves \<open>lib.js\<close> against the same document but no map against that, and finds no
  base in anything else.
\<close>

definition sample_completeUrl :: "string \<Rightarrow> string \<Rightarrow> string option" where
  "sample_completeUrl base relative =
     (if base = ''https://x/index.html'' \<and> relative = ''/app.js'' then Some ''https://x/app.js''
      else if base = ''https://x/app.js'' \<and> relative = ''app.js.map''
        then Some ''https://x/app.js.map''
      else if base = ''https://x/index.html'' \<and> relative = ''lib.js''
        then Some ''https://x/lib.js''
      else None)"

text \<open>A process in which Target 3 shows \<open>https://x/index.html\<close> and every other none.\<close>

definition sample_world :: world where
  "sample_world = process_start (\<lambda>g. if g = 3 then ''https://x/index.html'' else [])"

definition script7 :: scriptParsedEvent where
  "script7 = \<lparr>scriptId = ''7'', url = [], sourceMapURL = None\<rparr>"

definition script8 :: scriptParsedEvent where
  "script8 = \<lparr>scriptId = ''8'', url = ''/app.js'', sourceMapURL = Some ''app.js.map''\<rparr>"

definition script8_again :: scriptParsedEvent where
  "script8_again = \<lparr>scriptId = ''8'', url = ''lib.js'', sourceMapURL = Some ''lib.js.map''\<rparr>"

text \<open>Thread 1 of the sample process, on Target 3, constructed and initialised.\<close>

definition sample_thread :: "string state" where
  "sample_thread = initialize (Thread_new 3 sample_world)"

section \<open>Basic facts\<close>

lemma cdp_send_simps [simp]:
  "lastThreadId (cdp_send g c w) = lastThreadId w"
  "allocated (cdp_send g c w) = allocated w"
  "map_store (cdp_send g c w) = map_store w"
  "target_url (cdp_send g c w) = target_url w"
  "cdp_log (cdp_send g c w) = cdp_log w @ [(g, c)]"
  "registry_log (cdp_send g c w) = registry_log w"
  "notifications (cdp_send g c w) = notifications w"
  by (simp_all add: cdp_send_def)

lemma registry_send_simps [simp]:
  "lastThreadId (registry_send g c w) = lastThreadId w"
  "allocated (registry_send g c w) = allocated w"
  "map_store (registry_send g c w) = map_store w"
  "target_url (registry_send g c w) = target_url w"
  "cdp_log (registry_send g c w) = cdp_log w"
  "registry_log (registry_send g c w) = registry_log w @ [(g, c)]"
  "notifications (registry_send g c w) = notifications w"
  by (simp_all add: registry_send_def)

lemma emit_simps [simp]:
  "lastThreadId (emit e t w) = lastThreadId w"
  "allocated (emit e t w) = allocated w"
  "map_store (emit e t w) = map_store w"
  "target_url (emit e t w) = target_url w"
  "cdp_log (emit e t w) = cdp_log w"
  "registry_log (emit e t w) = registry_log w"
  "notifications (emit e t w) = notifications w @ [(e, t_threadId t)]"
  by (simp_all add: emit_def)

lemma store_set_simps [simp]:
  "lastThreadId (store_set a k v w) = lastThreadId w"
  "allocated (store_set a k v w) = allocated w"
  "map_store (store_set a k v w) = (map_store w)(a := Map_set k v (map_store w a))"
  "target_url (store_set a k v w) = target_url w"
  "cdp_log (store_set a k v w) = cdp_log w"
  "registry_log (store_set a k v w) = registry_log w"
  "notifications (store_set a k v w) = notifications w"
  by (simp_all add: store_set_def)

lemma store_clear_simps [simp]:
  "lastThreadId (store_clear a w) = lastThreadId w"
  "allocated (store_clear a w) = allocated w"
  "map_store (store_clear a w) = (map_store w)(a := [])"
  "target_url (store_clear a w) = target_url w"
  "cdp_log (store_clear a w) = cdp_log w"
  "registry_log (store_clear a w) = registry_log w"
  "notifications (store_clear a w) = notifications w"
  by (simp_all add: store_clear_def Map_clear_def)

subsection \<open>The Map operations\<close>

lemma Map_set_keys: "fst ` set (Map_set k v m) = insert k (fst ` set m)"
proof (induction m)
  case Nil
  then show ?case by simp
next
  case (Cons e m)
  obtain k' v' where e: "e = (k', v')" by (cases e)
  show ?case
  proof (cases "k' = k")
    case True
    then show ?thesis by (simp add: e)
  next
    case False
    then show ?thesis using Cons.IH by (simp add: e insert_commute)
  qed
qed

lemma Map_set_distinct: "distinct (map fst m) \<Longrightarrow> distinct (map fst (Map_set k v m))"
proof (induction m)
  case Nil
  then show ?case by simp
next
  case (Cons e m)
  obtain k' v' where e: "e = (k', v')" by (cases e)
  show ?case
  proof (cases "k' = k")
    case True
    then show ?thesis using Cons.prems by (simp add: e)
  next
    case False
    then have "k' \<notin> fst ` set (Map_set k v m)"
      using Cons.prems by (simp add: e Map_set_keys)
    then show ?thesis using False Cons by (simp add: e)
  qed
qed

lemma Map_set_entries: "set (Map_set k v m) \<subseteq> insert (k, v) {e \<in> set m. fst e \<noteq> k}"
  if "distinct (map fst m)"
  using that
proof (induction m)
  case Nil
  then show ?case by simp
next
  case (Cons e m)
  obtain k' v' where e: "e = (k', v')" by (cases e)
  show ?case
  proof (cases "k' = k")
    case True
    with Cons.prems have "k \<notin> fst ` set m" by (simp add: e)
    then have "set m \<subseteq> {e \<in> set m. fst e \<noteq> k}" by auto
    with True show ?thesis by (auto simp: e)
  next
    case False
    with Cons show ?thesis by (auto simp: e)
  qed
qed

lemma Map_set_list_all:
  "distinct (map fst m) \<Longrightarrow> list_all P m \<Longrightarrow> P (k, v) \<Longrightarrow> list_all P (Map_set k v m)"
  using Map_set_entries [of m k v] by (auto simp: list_all_iff)

lemma Map_get_Map_set: "Map_get (Map_set k v m) k = Some v"
  by (induction m) (auto simp: Map_get_def)

lemma Map_values_ran:
  "distinct (map fst m) \<Longrightarrow> set (Map_values m) = ran (Map_get m)"
  by (auto simp: Map_values_def Map_get_def ran_def image_iff dest: map_of_SomeD)
    (metis map_of_is_SomeI snd_conv)

subsection \<open>What each method and listener does\<close>

text \<open>The handle that \<open>_onScriptParsed\<close> creates in world \<open>w\<close>, and the URL it attaches.\<close>

lemma onScriptParsed_fst [simp]: "fst (onScriptParsed cu e s) = fst s"
  by (cases s) (simp add: Let_def createWithContentGetter_def split: option.splits)

lemma onScriptParsed_world:
  fixes t :: "'p thread" and w :: world and e :: scriptParsedEvent
    and cu :: "string \<Rightarrow> string \<Rightarrow> string option"
  defines "src \<equiv> \<lparr>source_ref = allocated w,
      source_url = (if url e \<noteq> [] then url e else ''VM'' @ scriptId e),
      getter_scriptId = scriptId e\<rparr>"
  defines "w' \<equiv> snd (onScriptParsed cu e (t, w))"
  shows "lastThreadId w' = lastThreadId w"
    and "allocated w' = allocated w + 1"
    and "map_store w' = (map_store w)(t_scripts t := Map_set (scriptId e) src (map_store w (t_scripts t)))"
    and "target_url w' = target_url w"
    and "cdp_log w' = cdp_log w"
    and "notifications w' = notifications w"
    and "\<exists>rest. registry_log w' = registry_log w @ (t_target t, AddSource src) # rest"
  unfolding src_def w'_def
  by (simp_all add: Let_def createWithContentGetter_def split: option.splits)

declare onScriptParsed.simps [simp del]

lemma funpow_invariant:
  assumes "\<And>s. P s \<Longrightarrow> P (f s)" and "P s"
  shows "P ((f ^^ n) s)"
  using assms by (induction n) auto

lemma step_invariant:
  assumes "P s"
    and "\<And>s. P s \<Longrightarrow> P (initialize_1 s)"
    and "\<And>s. P s \<Longrightarrow> P (initialize_2 s)"
    and "\<And>s. P s \<Longrightarrow> P (resume s)"
    and "\<And>s. P s \<Longrightarrow> P (reset s)"
    and "\<And>s name. P s \<Longrightarrow> P (setThreadName name s)"
    and "\<And>s p. P s \<Longrightarrow> P (on_paused p s)"
    and "\<And>s. P s \<Longrightarrow> P (on_resumed s)"
    and "\<And>s e. P s \<Longrightarrow> P (onScriptParsed cu e s)"
  shows "P (step cu a s)"
proof (cases a)
  case (Deliver ev)
  have "P (listener cu ev s')" if "P s'" for s'
    using that assms(5,7,8,9) by (cases ev) auto
  then have "P (deliver cu ev s)"
    unfolding deliver_def using assms(1) by (rule funpow_invariant)
  with Deliver show ?thesis by simp
next
  case CallDispose
  have "dispose s = reset s" by (cases s) simp
  with CallDispose assms(1,5) show ?thesis by simp
qed (use assms in auto)

lemma run_invariant:
  assumes "P s"
    and "\<And>s. P s \<Longrightarrow> P (initialize_1 s)"
    and "\<And>s. P s \<Longrightarrow> P (initialize_2 s)"
    and "\<And>s. P s \<Longrightarrow> P (resume s)"
    and "\<And>s. P s \<Longrightarrow> P (reset s)"
    and "\<And>s name. P s \<Longrightarrow> P (setThreadName name s)"
    and "\<And>s p. P s \<Longrightarrow> P (on_paused p s)"
    and "\<And>s. P s \<Longrightarrow> P (on_resumed s)"
    and "\<And>s e. P s \<Longrightarrow> P (onScriptParsed cu e s)"
  shows "P (run cu as s)"
  using assms(1)
proof (induction as arbitrary: s)
  case Nil
  then show ?case by simp
next
  case (Cons a as)
  have "P (step cu a s)"
    by (rule step_invariant [where P = P]) (use Cons.prems assms(2-) in auto)
  then show ?case using Cons.IH by simp
qed

lemma run_append: "run cu (as @ bs) s = run cu bs (run cu as s)"
  by (induction as arbitrary: s) auto

lemma reset_fst [simp]: "fst (reset s) = fst s"
  by (cases s) (simp add: Let_def)

lemma reset_world [simp]:
  "lastThreadId (snd (reset s)) = lastThreadId (snd s)"
  "allocated (snd (reset s)) = allocated (snd s)"
  "map_store (snd (reset s)) = (map_store (snd s))(t_scripts (fst s) := [])"
  "target_url (snd (reset s)) = target_url (snd s)"
  "cdp_log (snd (reset s)) = cdp_log (snd s)"
  "registry_log (snd (reset s)) =
     registry_log (snd s) @ [(t_target (fst s), RemoveSources (Map_values (scripts_of s)))]"
  "notifications (snd (reset s)) = notifications (snd s)"
  by (cases s; simp add: Let_def scripts_of_def scripts_def)+

lemma dispose_reset: "dispose s = reset s"
  by (cases s) simp

subsection \<open>The sample inputs, evaluated\<close>

lemmas sample_defs = sample_thread_def sample_world_def process_start_def Thread_new_def
  initialize_def pre_increment_def Let_def script7_def script8_def script8_again_def
  sample_completeUrl_def deliver_def listenerCount_def createWithContentGetter_def
  truthy_def js_and_def Map_values_def scripts_of_def scripts_def onScriptParsed.simps

lemma sample_thread_fst:
  "fst sample_thread =
     \<lparr>t_target = 3, t_threadId = 1, t_threadName = [], t_pausedDetails = Undefined,
      t_scripts = 0\<rparr>"
  by (simp add: sample_defs)

lemma sample_thread_listening: "listening sample_thread"
  by (simp add: listening_def sample_defs)

section \<open>Reset and dispose\<close>

text \<open>
  C1. After \<open>dispose()\<close>, after an internal reset and after the "contexts cleared"
  listener, the map behind \<open>scripts()\<close> is empty, and the registry has received one more
  call and no other: \<open>removeSources\<close> with the handles the map held when the reset began,
  all of them in that one call. These are the values of the map's entries, and, the keys
  of a Map being distinct, the handles that a lookup in the map can return. The reset is
  one step of the Thread: it changes nothing else (no other Map object, no field of the
  Thread, no call on the protocol client, no notification), and it passes through no
  state in which only some of the handles are removed.
\<close>

theorem reset_removes_snapshot:
  fixes s :: "'p state"
  shows "scripts_of (reset s) = []
    \<and> dispose s = reset s
    \<and> listener completeUrl ExecutionContextsCleared s = reset s
    \<and> registry_calls_since (snd s) (snd (reset s)) =
        [(t_target (fst s), RemoveSources (Map_values (scripts_of s)))]
    \<and> set (Map_values (scripts_of s)) = snd ` set (scripts_of s)
    \<and> (distinct (map fst (scripts_of s)) \<longrightarrow>
         set (Map_values (scripts_of s)) = ran (Map_get (scripts_of s)))
    \<and> fst (reset s) = fst s
    \<and> map_store (snd (reset s)) = (map_store (snd s))(scripts (fst s) := [])
    \<and> calls_since (snd s) (snd (reset s)) = []
    \<and> notifications (snd (reset s)) = notifications (snd s)"
proof -
  have emptied: "scripts_of (reset s) = []"
    by (simp add: scripts_of_def scripts_def)
  have entries: "set (Map_values (scripts_of s)) = snd ` set (scripts_of s)"
    by (simp add: Map_values_def)
  have lookups: "distinct (map fst (scripts_of s)) \<longrightarrow>
      set (Map_values (scripts_of s)) = ran (Map_get (scripts_of s))"
    by (simp add: Map_values_ran)
  have rest: "dispose s = reset s
    \<and> listener completeUrl ExecutionContextsCleared s = reset s
    \<and> registry_calls_since (snd s) (snd (reset s)) =
        [(t_target (fst s), RemoveSources (Map_values (scripts_of s)))]
    \<and> fst (reset s) = fst s
    \<and> map_store (snd (reset s)) = (map_store (snd s))(scripts (fst s) := [])
    \<and> calls_since (snd s) (snd (reset s)) = []
    \<and> notifications (snd (reset s)) = notifications (snd s)"
    by (simp add: dispose_reset registry_calls_since_def calls_since_def scripts_def)
  show ?thesis
    using emptied entries lookups rest by blast
qed

theorem reset_removes_snapshot_witness:
  "distinct (map fst (scripts_of
      (run sample_completeUrl [Deliver (ScriptParsed script7), Deliver (ScriptParsed script8)]
         sample_thread)))
   \<and> ran (Map_get (scripts_of
      (run sample_completeUrl [Deliver (ScriptParsed script7), Deliver (ScriptParsed script8)]
         sample_thread))) =
     {\<lparr>source_ref = 1, source_url = ''VM7'', getter_scriptId = ''7''\<rparr>,
      \<lparr>source_ref = 2, source_url = ''/app.js'', getter_scriptId = ''8''\<rparr>}
   \<and> registry_calls_since
        (snd (run sample_completeUrl
           [Deliver (ScriptParsed script7), Deliver (ScriptParsed script8)] sample_thread))
        (snd (reset (run sample_completeUrl
           [Deliver (ScriptParsed script7), Deliver (ScriptParsed script8)] sample_thread))) =
     [(3, RemoveSources
        [\<lparr>source_ref = 1, source_url = ''VM7'', getter_scriptId = ''7''\<rparr>,
         \<lparr>source_ref = 2, source_url = ''/app.js'', getter_scriptId = ''8''\<rparr>])]
   \<and> scripts_of (reset (run sample_completeUrl
        [Deliver (ScriptParsed script7), Deliver (ScriptParsed script8)] sample_thread)) = []"
proof -
  define s where "s = run sample_completeUrl
    [Deliver (ScriptParsed script7), Deliver (ScriptParsed script8)] sample_thread"
  have m: "scripts_of s =
     [(''7'', \<lparr>source_ref = 1, source_url = ''VM7'', getter_scriptId = ''7''\<rparr>),
      (''8'', \<lparr>source_ref = 2, source_url = ''/app.js'', getter_scriptId = ''8''\<rparr>)]"
    and g: "t_target (fst s) = 3"
    by (simp_all add: s_def sample_defs store_set_def registry_send_def)
  have d: "distinct (map fst (scripts_of s))"
    by (simp add: m)
  show ?thesis
    using reset_removes_snapshot [of s] d
    unfolding s_def [symmetric] by (simp add: m g Map_values_def)
qed

section \<open>Resume\<close>

text \<open>
  C8. A call of \<open>resume()\<close> issues one command on the protocol client of the Thread's
  Target, \<open>Debugger.resume\<close>, and nothing else: the Thread's fields (id, name, paused
  details, the reference to its script map) are what they were, so is every Map object and
  so the entries of the script map, so is the static counter, and no call reaches the
  registry or the observers. The paused details change when the listener for "resumed"
  runs: it sets them to \<open>null\<close>.
\<close>

theorem resume_issues_one_command:
  fixes s :: "'p state"
  shows "calls_since (snd s) (snd (resume s)) = [(t_target (fst s), DebuggerResume)]
    \<and> fst (resume s) = fst s
    \<and> threadId (fst (resume s)) = threadId (fst s)
    \<and> threadName (fst (resume s)) = threadName (fst s)
    \<and> pausedDetails (fst (resume s)) = pausedDetails (fst s)
    \<and> scripts_of (resume s) = scripts_of s
    \<and> map_store (snd (resume s)) = map_store (snd s)
    \<and> lastThreadId (snd (resume s)) = lastThreadId (snd s)
    \<and> registry_log (snd (resume s)) = registry_log (snd s)
    \<and> notifications (snd (resume s)) = notifications (snd s)
    \<and> pausedDetails (fst (listener completeUrl Resumed (resume s))) = Null"
  by (cases s)
    (simp add: calls_since_def scripts_of_def scripts_def pausedDetails_def Let_def)

theorem resume_issues_one_command_witness:
  "calls_since (snd (deliver sample_completeUrl (Paused ''breakpoint'') sample_thread))
     (snd (resume (deliver sample_completeUrl (Paused ''breakpoint'') sample_thread))) =
     [(3, DebuggerResume)]
   \<and> pausedDetails
        (fst (resume (deliver sample_completeUrl (Paused ''breakpoint'') sample_thread))) =
      Value ''breakpoint''
   \<and> pausedDetails (fst (listener sample_completeUrl Resumed
        (resume (deliver sample_completeUrl (Paused ''breakpoint'') sample_thread)))) = Null"
proof -
  define s where "s = deliver sample_completeUrl (Paused ''breakpoint'') sample_thread"
  have "t_target (fst s) = 3" and "pausedDetails (fst s) = Value ''breakpoint''"
    by (simp_all add: s_def sample_defs pausedDetails_def)
  then show ?thesis
    using resume_issues_one_command [of s sample_completeUrl]
    unfolding s_def [symmetric] by simp
qed

section \<open>Initialisation\<close>

text \<open>
  C7. \<open>initialize()\<close> makes six calls on the protocol client of the Thread's Target, in
  this order: it registers the "contexts cleared" listener, issues \<open>Runtime.enable\<close> and
  suspends; resumed, it registers the "paused", "resumed" and "script parsed" listeners,
  issues \<open>Debugger.enable\<close> and suspends again. For each of the four events, the
  listener is registered before the first activation of the domain that emits the event.
  It changes nothing else.
\<close>

theorem initialize_subscribes_before_enabling:
  fixes s :: "'p state"
  shows "calls_since (snd s) (snd (initialize s)) =
      map (Pair (t_target (fst s)))
        [On Runtime ''executionContextsCleared'', Enable Runtime,
         On Debugger ''paused'', On Debugger ''resumed'', On Debugger ''scriptParsed'',
         Enable Debugger]
    \<and> calls_since (snd s) (snd (initialize_1 s)) =
      map (Pair (t_target (fst s))) [On Runtime ''executionContextsCleared'', Enable Runtime]
    \<and> calls_since (snd (initialize_1 s)) (snd (initialize_2 (initialize_1 s))) =
      map (Pair (t_target (fst s)))
        [On Debugger ''paused'', On Debugger ''resumed'', On Debugger ''scriptParsed'',
         Enable Debugger]
    \<and> initialize s = initialize_2 (initialize_1 s)
    \<and> (\<forall>ev :: 'p protocol_event.
         precedes (On (event_domain ev) (event_name ev)) (Enable (event_domain ev))
           (map snd (calls_since (snd s) (snd (initialize s)))))
    \<and> fst (initialize s) = fst s
    \<and> registry_log (snd (initialize s)) = registry_log (snd s)
    \<and> notifications (snd (initialize s)) = notifications (snd s)
    \<and> map_store (snd (initialize s)) = map_store (snd s)"
proof -
  obtain t w where s: "s = (t, w)" by (cases s)
  have calls: "calls_since (snd s) (snd (initialize s)) =
      map (Pair (t_target (fst s)))
        [On Runtime ''executionContextsCleared'', Enable Runtime,
         On Debugger ''paused'', On Debugger ''resumed'', On Debugger ''scriptParsed'',
         Enable Debugger]"
    by (simp add: s initialize_def calls_since_def Let_def)
  have order: "precedes (On (event_domain ev) (event_name ev)) (Enable (event_domain ev))
      (map snd (calls_since (snd s) (snd (initialize s))))" for ev :: "'p protocol_event"
    unfolding calls by (cases ev) (simp_all add: precedes_def)
  have rest: "calls_since (snd s) (snd (initialize_1 s)) =
      map (Pair (t_target (fst s))) [On Runtime ''executionContextsCleared'', Enable Runtime]
    \<and> calls_since (snd (initialize_1 s)) (snd (initialize_2 (initialize_1 s))) =
      map (Pair (t_target (fst s)))
        [On Debugger ''paused'', On Debugger ''resumed'', On Debugger ''scriptParsed'',
         Enable Debugger]
    \<and> initialize s = initialize_2 (initialize_1 s)
    \<and> fst (initialize s) = fst s
    \<and> registry_log (snd (initialize s)) = registry_log (snd s)
    \<and> notifications (snd (initialize s)) = notifications (snd s)
    \<and> map_store (snd (initialize s)) = map_store (snd s)"
    by (simp add: s initialize_def calls_since_def Let_def)
  show ?thesis
    using calls order rest by blast
qed

theorem initialize_subscribes_before_enabling_witness:
  "cdp_log (snd (initialize (Thread_new 3 sample_world :: string state))) =
     [(3, On Runtime ''executionContextsCleared''), (3, Enable Runtime),
      (3, On Debugger ''paused''), (3, On Debugger ''resumed''),
      (3, On Debugger ''scriptParsed''), (3, Enable Debugger)]
   \<and> precedes (On Debugger ''scriptParsed'') (Enable Debugger)
        (map snd (cdp_log (snd (initialize (Thread_new 3 sample_world :: string state)))))"
proof -
  define s :: "string state" where "s = Thread_new 3 sample_world"
  have "cdp_log (snd s) = []" and "t_target (fst s) = 3"
    by (simp_all add: s_def sample_defs)
  moreover have "event_domain (ScriptParsed script7 :: string protocol_event) = Debugger"
    and "event_name (ScriptParsed script7 :: string protocol_event) = ''scriptParsed''"
    by simp_all
  ultimately show ?thesis
    using initialize_subscribes_before_enabling [of s]
    unfolding s_def [symmetric]
    by (auto simp: calls_since_def dest!: spec [where x = "ScriptParsed script7"])
qed

section \<open>Script registration\<close>

text \<open>
  C6. The listener for "script parsed" creates one handle, stores it in the script map
  under the event's script id and passes it to \<open>addSource\<close> as its first call on the
  registry. The handle's readable URL is the event's URL when that is not empty, and
  \<open>VM\<close> followed by the script id otherwise; for an empty URL and script id \<open>7\<close> it is
  \<open>VM7\<close>.
\<close>

theorem readable_url_of_registered_source:
  fixes s :: "'p state"
  shows "\<exists>src rest.
      Map_get (scripts_of (onScriptParsed completeUrl event s)) (scriptId event) = Some src
    \<and> registry_calls_since (snd s) (snd (onScriptParsed completeUrl event s)) =
        (t_target (fst s), AddSource src) # rest
    \<and> source_url src = (if url event \<noteq> [] then url event else ''VM'' @ scriptId event)
    \<and> (url event = [] \<and> scriptId event = ''7'' \<longrightarrow> source_url src = ''VM7'')"
proof -
  obtain t w where s: "s = (t, w)" by (cases s)
  define src where "src = \<lparr>source_ref = allocated w,
      source_url = (if url event \<noteq> [] then url event else ''VM'' @ scriptId event),
      getter_scriptId = scriptId event\<rparr>"
  have held: "Map_get (scripts_of (onScriptParsed completeUrl event s)) (scriptId event) = Some src"
    by (simp add: s scripts_of_def scripts_def onScriptParsed_world(3) src_def Map_get_Map_set)
  obtain rest where "registry_log (snd (onScriptParsed completeUrl event s)) =
      registry_log w @ (t_target t, AddSource src) # rest"
    using onScriptParsed_world(7) [of completeUrl event t w] unfolding s src_def by auto
  then have added: "registry_calls_since (snd s) (snd (onScriptParsed completeUrl event s)) =
      (t_target (fst s), AddSource src) # rest"
    by (simp add: s registry_calls_since_def)
  have "source_url src = (if url event \<noteq> [] then url event else ''VM'' @ scriptId event)"
    and "url event = [] \<and> scriptId event = ''7'' \<longrightarrow> source_url src = ''VM7''"
    by (simp_all add: src_def)
  with held added show ?thesis by blast
qed

theorem readable_url_of_registered_source_witness:
  "url script7 = [] \<and> scriptId script7 = ''7''
   \<and> (\<exists>src rest.
       Map_get (scripts_of (onScriptParsed sample_completeUrl script7 sample_thread)) ''7'' =
         Some src
     \<and> registry_calls_since (snd sample_thread)
         (snd (onScriptParsed sample_completeUrl script7 sample_thread)) =
         (3, AddSource src) # rest
     \<and> source_url src = ''VM7'')"
proof -
  have "url script7 = []" and "scriptId script7 = ''7''"
    and "t_target (fst sample_thread) = 3"
    by (simp_all add: script7_def sample_thread_fst)
  then show ?thesis
    using readable_url_of_registered_source [of sample_completeUrl script7 sample_thread]
    by auto
qed

text \<open>
  C5. Take a "script parsed" event that carries a source-map URL \<open>m\<close> (a non-empty
  string). The listener first calls \<open>addSource\<close>. It then resolves the script's URL
  against the document URL of the Thread's Target and, when that gives a URL \<open>u\<close>,
  resolves \<open>m\<close> against \<open>u\<close>. When the first resolution gives nothing, or the second
  does, no \<open>attachSourceMap\<close> call is made: \<open>addSource\<close> stays the listener's only call
  on the registry. When both give a URL (a non-empty string), exactly one
  \<open>attachSourceMap\<close> call follows, with the handle just created and the URL \<open>r\<close> of the
  second resolution. In every case the listener returns, and it makes at most one
  \<open>attachSourceMap\<close> call.
\<close>

theorem source_map_attached_when_resolved:
  fixes s :: "'p state"
  assumes "sourceMapURL event = Some m" and "m \<noteq> []"
  shows "\<exists>src.
      Map_get (scripts_of (onScriptParsed completeUrl event s)) (scriptId event) = Some src
    \<and> (completeUrl (target_url (snd s) (t_target (fst s))) (url event) = None \<longrightarrow>
         registry_calls_since (snd s) (snd (onScriptParsed completeUrl event s)) =
           [(t_target (fst s), AddSource src)])
    \<and> (\<forall>u. completeUrl (target_url (snd s) (t_target (fst s))) (url event) = Some u
           \<and> completeUrl u m = None \<longrightarrow>
         registry_calls_since (snd s) (snd (onScriptParsed completeUrl event s)) =
           [(t_target (fst s), AddSource src)])
    \<and> (\<forall>u r. completeUrl (target_url (snd s) (t_target (fst s))) (url event) = Some u
           \<and> u \<noteq> [] \<and> completeUrl u m = Some r \<and> r \<noteq> [] \<longrightarrow>
         registry_calls_since (snd s) (snd (onScriptParsed completeUrl event s)) =
           [(t_target (fst s), AddSource src), (t_target (fst s), AttachSourceMap src r)])
    \<and> (registry_calls_since (snd s) (snd (onScriptParsed completeUrl event s)) =
           [(t_target (fst s), AddSource src)]
        \<or> (\<exists>r. registry_calls_since (snd s) (snd (onScriptParsed completeUrl event s)) =
           [(t_target (fst s), AddSource src), (t_target (fst s), AttachSourceMap src r)]))"
proof -
  obtain t w where s: "s = (t, w)" by (cases s)
  define src where "src = \<lparr>source_ref = allocated w,
      source_url = (if url event \<noteq> [] then url event else ''VM'' @ scriptId event),
      getter_scriptId = scriptId event\<rparr>"
  define made where
    "made = registry_calls_since (snd s) (snd (onScriptParsed completeUrl event s))"
  have held: "Map_get (scripts_of (onScriptParsed completeUrl event s)) (scriptId event) = Some src"
    by (simp add: s scripts_of_def scripts_def onScriptParsed_world(3) src_def Map_get_Map_set)
  have no_base: "made = [(t_target (fst s), AddSource src)]"
    if "completeUrl (target_url (snd s) (t_target (fst s))) (url event) = None"
    using that assms
    by (simp add: made_def s src_def registry_calls_since_def Let_def truthy_def js_and_def
        createWithContentGetter_def onScriptParsed.simps)
  have no_map: "made = [(t_target (fst s), AddSource src)]"
    if "completeUrl (target_url (snd s) (t_target (fst s))) (url event) = Some u"
      and "completeUrl u m = None" for u
    using that assms
    by (simp add: made_def s src_def registry_calls_since_def Let_def truthy_def js_and_def
        createWithContentGetter_def onScriptParsed.simps)
  have both: "made = [(t_target (fst s), AddSource src), (t_target (fst s), AttachSourceMap src r)]"
    if "completeUrl (target_url (snd s) (t_target (fst s))) (url event) = Some u" and "u \<noteq> []"
      and "completeUrl u m = Some r" and "r \<noteq> []" for u r
    using that assms
    by (simp add: made_def s src_def registry_calls_since_def Let_def truthy_def js_and_def
        createWithContentGetter_def onScriptParsed.simps)
  have at_most_one: "made = [(t_target (fst s), AddSource src)]
      \<or> (\<exists>r. made = [(t_target (fst s), AddSource src), (t_target (fst s), AttachSourceMap src r)])"
    using assms
    by (simp add: made_def s src_def registry_calls_since_def Let_def truthy_def js_and_def
        createWithContentGetter_def onScriptParsed.simps split: option.splits)
  have "Map_get (scripts_of (onScriptParsed completeUrl event s)) (scriptId event) = Some src
    \<and> (completeUrl (target_url (snd s) (t_target (fst s))) (url event) = None \<longrightarrow>
         made = [(t_target (fst s), AddSource src)])
    \<and> (\<forall>u. completeUrl (target_url (snd s) (t_target (fst s))) (url event) = Some u
           \<and> completeUrl u m = None \<longrightarrow>
         made = [(t_target (fst s), AddSource src)])
    \<and> (\<forall>u r. completeUrl (target_url (snd s) (t_target (fst s))) (url event) = Some u
           \<and> u \<noteq> [] \<and> completeUrl u m = Some r \<and> r \<noteq> [] \<longrightarrow>
         made = [(t_target (fst s), AddSource src), (t_target (fst s), AttachSourceMap src r)])
    \<and> (made = [(t_target (fst s), AddSource src)]
        \<or> (\<exists>r. made =
           [(t_target (fst s), AddSource src), (t_target (fst s), AttachSourceMap src r)]))"
    using held no_base no_map both at_most_one by blast
  then show ?thesis
    unfolding made_def by (rule exI)
qed

theorem source_map_attached_when_resolved_witness:
  "(sourceMapURL script8 = Some ''app.js.map'' \<and> ''app.js.map'' \<noteq> ''''
    \<and> sample_completeUrl (target_url (snd sample_thread) (t_target (fst sample_thread)))
          (url script8) = Some ''https://x/app.js''
    \<and> sample_completeUrl ''https://x/app.js'' ''app.js.map'' = Some ''https://x/app.js.map''
    \<and> (\<exists>src. registry_calls_since (snd sample_thread)
          (snd (onScriptParsed sample_completeUrl script8 sample_thread)) =
          [(3, AddSource src), (3, AttachSourceMap src ''https://x/app.js.map'')]))
   \<and> (sourceMapURL script8_again = Some ''lib.js.map'' \<and> ''lib.js.map'' \<noteq> ''''
    \<and> sample_completeUrl (target_url (snd sample_thread) (t_target (fst sample_thread)))
          (url script8_again) = Some ''https://x/lib.js''
    \<and> sample_completeUrl ''https://x/lib.js'' ''lib.js.map'' = None
    \<and> (\<exists>src. registry_calls_since (snd sample_thread)
          (snd (onScriptParsed sample_completeUrl script8_again sample_thread)) =
          [(3, AddSource src)]))
   \<and> (sample_completeUrl
          (target_url (snd (Thread_new 5 sample_world :: string state))
             (t_target (fst (Thread_new 5 sample_world :: string state))))
          (url script8) = None
    \<and> (\<exists>src. registry_calls_since (snd (Thread_new 5 sample_world :: string state))
          (snd (onScriptParsed sample_completeUrl script8
             (Thread_new 5 sample_world :: string state))) =
          [(5, AddSource src)]))"
proof -
  define other :: "string state" where "other = Thread_new 5 sample_world"
  have m8: "sourceMapURL script8 = Some ''app.js.map''" and ne8: "''app.js.map'' \<noteq> ''''"
    and m8': "sourceMapURL script8_again = Some ''lib.js.map''" and ne8': "''lib.js.map'' \<noteq> ''''"
    by (simp_all add: script8_def script8_again_def)
  have g: "t_target (fst sample_thread) = 3" and g': "t_target (fst other) = 5"
    by (simp_all add: sample_thread_fst other_def Thread_new_def Let_def)
  have u8: "sample_completeUrl (target_url (snd sample_thread) (t_target (fst sample_thread)))
      (url script8) = Some ''https://x/app.js''"
    and r8: "sample_completeUrl ''https://x/app.js'' ''app.js.map'' = Some ''https://x/app.js.map''"
    and u8': "sample_completeUrl (target_url (snd sample_thread) (t_target (fst sample_thread)))
      (url script8_again) = Some ''https://x/lib.js''"
    and r8': "sample_completeUrl ''https://x/lib.js'' ''lib.js.map'' = None"
    and u5: "sample_completeUrl (target_url (snd other) (t_target (fst other))) (url script8) = None"
    by (simp_all add: sample_defs other_def)
  have both: "\<exists>src. registry_calls_since (snd sample_thread)
      (snd (onScriptParsed sample_completeUrl script8 sample_thread)) =
      [(3, AddSource src), (3, AttachSourceMap src ''https://x/app.js.map'')]"
    using source_map_attached_when_resolved [OF m8 ne8, of sample_completeUrl sample_thread]
      u8 r8 unfolding g by fastforce
  have no_map: "\<exists>src. registry_calls_since (snd sample_thread)
      (snd (onScriptParsed sample_completeUrl script8_again sample_thread)) = [(3, AddSource src)]"
    using source_map_attached_when_resolved [OF m8' ne8', of sample_completeUrl sample_thread]
      u8' r8' unfolding g by fastforce
  have no_base: "\<exists>src. registry_calls_since (snd other)
      (snd (onScriptParsed sample_completeUrl script8 other)) = [(5, AddSource src)]"
    using source_map_attached_when_resolved [OF m8 ne8, of sample_completeUrl other]
      u5 unfolding g' by fastforce
  show ?thesis
    using m8 ne8 m8' ne8' u8 r8 u8' r8' u5 both no_map no_base
    unfolding other_def by blast
qed

section \<open>The view returned by \<open>scripts()\<close>\<close>

text \<open>
  C9, as the claim states it, fails: \<open>scripts()\<close> returns the Thread's Map object, and a
  caller who calls \<open>set\<close> on what it was given has changed the Thread's script map.
  Here the caller holds the map of the sample Thread, empty so far, and sets key \<open>1\<close>.
\<close>

theorem scripts_view_counterexample:
  "scripts_of sample_thread = []
   \<and> scripts_of (fst sample_thread,
        store_set (scripts (fst sample_thread)) ''1''
          \<lparr>source_ref = 9, source_url = ''x.js'', getter_scriptId = ''1''\<rparr>
          (snd sample_thread)) =
      [(''1'', \<lparr>source_ref = 9, source_url = ''x.js'', getter_scriptId = ''1''\<rparr>)]
   \<and> scripts_of (fst sample_thread,
        store_set (scripts (fst sample_thread)) ''1''
          \<lparr>source_ref = 9, source_url = ''x.js'', getter_scriptId = ''1''\<rparr>
          (snd sample_thread)) \<noteq> scripts_of sample_thread"
  by (simp add: sample_defs)

text \<open>
  C9, amended. \<open>scripts()\<close> returns the very Map object the Thread keeps its scripts in,
  not a copy and not a read-only wrapper. Calling it changes nothing; a \<open>set\<close> or a
  \<open>clear\<close> that a caller makes on the returned object is made on the Thread's script map.
\<close>

theorem scripts_returns_the_map_itself:
  fixes t :: "'p thread"
  shows "scripts t = t_scripts t
    \<and> scripts_of (t, w) = map_store w (t_scripts t)
    \<and> scripts_of (t, store_set (scripts t) k v w) = Map_set k v (scripts_of (t, w))
    \<and> scripts_of (t, store_clear (scripts t) w) = []"
  by (simp add: scripts_of_def scripts_def)

section \<open>Facts about every action\<close>

lemma resume_proj [simp]:
  "fst (resume s) = fst s"
  "lastThreadId (snd (resume s)) = lastThreadId (snd s)"
  "allocated (snd (resume s)) = allocated (snd s)"
  "map_store (snd (resume s)) = map_store (snd s)"
  "cdp_log (snd (resume s)) = cdp_log (snd s) @ [(t_target (fst s), DebuggerResume)]"
  "registry_log (snd (resume s)) = registry_log (snd s)"
  by (cases s; simp)+

lemma initialize_1_proj [simp]:
  "fst (initialize_1 s) = fst s"
  "lastThreadId (snd (initialize_1 s)) = lastThreadId (snd s)"
  "allocated (snd (initialize_1 s)) = allocated (snd s)"
  "map_store (snd (initialize_1 s)) = map_store (snd s)"
  "cdp_log (snd (initialize_1 s)) =
     cdp_log (snd s) @ [(t_target (fst s), On Runtime ''executionContextsCleared''),
                        (t_target (fst s), Enable Runtime)]"
  "registry_log (snd (initialize_1 s)) = registry_log (snd s)"
  by (cases s; simp add: Let_def)+

lemma initialize_2_proj [simp]:
  "fst (initialize_2 s) = fst s"
  "lastThreadId (snd (initialize_2 s)) = lastThreadId (snd s)"
  "allocated (snd (initialize_2 s)) = allocated (snd s)"
  "map_store (snd (initialize_2 s)) = map_store (snd s)"
  "cdp_log (snd (initialize_2 s)) =
     cdp_log (snd s) @ [(t_target (fst s), On Debugger ''paused''),
                        (t_target (fst s), On Debugger ''resumed''),
                        (t_target (fst s), On Debugger ''scriptParsed''),
                        (t_target (fst s), Enable Debugger)]"
  "registry_log (snd (initialize_2 s)) = registry_log (snd s)"
  by (cases s; simp add: Let_def)+

lemma setThreadName_proj [simp]:
  "fst (setThreadName name s) = (fst s)\<lparr>t_threadName := name\<rparr>"
  "lastThreadId (snd (setThreadName name s)) = lastThreadId (snd s)"
  "allocated (snd (setThreadName name s)) = allocated (snd s)"
  "map_store (snd (setThreadName name s)) = map_store (snd s)"
  "cdp_log (snd (setThreadName name s)) = cdp_log (snd s)"
  "registry_log (snd (setThreadName name s)) = registry_log (snd s)"
  by (cases s; simp add: Let_def)+

lemma on_paused_proj [simp]:
  "fst (on_paused p s) = (fst s)\<lparr>t_pausedDetails := Value p\<rparr>"
  "lastThreadId (snd (on_paused p s)) = lastThreadId (snd s)"
  "allocated (snd (on_paused p s)) = allocated (snd s)"
  "map_store (snd (on_paused p s)) = map_store (snd s)"
  "cdp_log (snd (on_paused p s)) = cdp_log (snd s)"
  "registry_log (snd (on_paused p s)) = registry_log (snd s)"
  by (cases s; simp add: Let_def)+

lemma on_resumed_proj [simp]:
  "fst (on_resumed s) = (fst s)\<lparr>t_pausedDetails := Null\<rparr>"
  "lastThreadId (snd (on_resumed s)) = lastThreadId (snd s)"
  "allocated (snd (on_resumed s)) = allocated (snd s)"
  "map_store (snd (on_resumed s)) = map_store (snd s)"
  "cdp_log (snd (on_resumed s)) = cdp_log (snd s)"
  "registry_log (snd (on_resumed s)) = registry_log (snd s)"
  by (cases s; simp add: Let_def)+

lemma onScriptParsed_proj [simp]:
  "lastThreadId (snd (onScriptParsed cu e s)) = lastThreadId (snd s)"
  "allocated (snd (onScriptParsed cu e s)) = allocated (snd s) + 1"
  "cdp_log (snd (onScriptParsed cu e s)) = cdp_log (snd s)"
  using onScriptParsed_world(1,2,5) [of cu e "fst s" "snd s"] by simp_all

lemma onScriptParsed_scripts_of:
  "scripts_of (onScriptParsed cu e s) =
     Map_set (scriptId e)
       \<lparr>source_ref = allocated (snd s),
        source_url = (if url e \<noteq> [] then url e else ''VM'' @ scriptId e),
        getter_scriptId = scriptId e\<rparr>
       (scripts_of s)"
  using onScriptParsed_world(3) [of cu e "fst s" "snd s"]
  by (simp add: scripts_of_def scripts_def)

lemma onScriptParsed_registry:
  "\<exists>rest. registry_log (snd (onScriptParsed cu e s)) =
     registry_log (snd s) @
       (t_target (fst s),
        AddSource \<lparr>source_ref = allocated (snd s),
          source_url = (if url e \<noteq> [] then url e else ''VM'' @ scriptId e),
          getter_scriptId = scriptId e\<rparr>) # rest"
  using onScriptParsed_world(7) [of cu e "fst s" "snd s"] by simp

lemma scripts_of_unchanged [simp]:
  "scripts_of (resume s) = scripts_of s"
  "scripts_of (initialize_1 s) = scripts_of s"
  "scripts_of (initialize_2 s) = scripts_of s"
  "scripts_of (setThreadName name s) = scripts_of s"
  "scripts_of (on_paused p s) = scripts_of s"
  "scripts_of (on_resumed s) = scripts_of s"
  "scripts_of (reset s) = []"
  by (simp_all add: scripts_of_def scripts_def)

text \<open>No action changes the Thread's Target, its id or the reference to its script map.\<close>

lemma run_identity:
  "t_target (fst (run cu as s)) = t_target (fst s)
   \<and> t_threadId (fst (run cu as s)) = t_threadId (fst s)
   \<and> t_scripts (fst (run cu as s)) = t_scripts (fst s)"
  by (rule run_invariant [where P = "\<lambda>x. t_target (fst x) = t_target (fst s)
        \<and> t_threadId (fst x) = t_threadId (fst s) \<and> t_scripts (fst x) = t_scripts (fst s)"])
    simp_all

lemma step_target [simp]: "t_target (fst (step cu a s)) = t_target (fst s)"
  using run_identity [of cu "[a]" s] by simp

lemma run_lastThreadId: "lastThreadId (snd (run cu as s)) = lastThreadId (snd s)"
  by (rule run_invariant [where P = "\<lambda>x. lastThreadId (snd x) = lastThreadId (snd s)"])
    simp_all

text \<open>Listeners are never removed.\<close>

lemma listenerCount_append:
  "cdp_log w' = cdp_log w @ cs \<Longrightarrow> listenerCount w g d n \<le> listenerCount w' g d n"
  by (simp add: listenerCount_def)

lemma run_listenerCount:
  "n \<le> listenerCount (snd s) g d nm \<Longrightarrow> n \<le> listenerCount (snd (run cu as s)) g d nm"
  by (rule run_invariant [where P = "\<lambda>x. n \<le> listenerCount (snd x) g d nm"])
    (simp_all add: listenerCount_def)

lemma step_listenerCount:
  "n \<le> listenerCount (snd s) g d nm \<Longrightarrow> n \<le> listenerCount (snd (step cu a s)) g d nm"
  using run_listenerCount [of n s g d nm cu "[a]"] by simp

lemma run_listening: "listening s \<Longrightarrow> listening (run cu as s)"
  using run_listenerCount [of "Suc 0" s "t_target (fst s)" _ _ cu as] run_identity [of cu as s]
  by (simp add: listening_def Let_def Suc_le_eq)

lemma initialize_listening: "listening (initialize s)"
  by (simp add: listening_def initialize_def listenerCount_def)

text \<open>The registry only ever receives further calls.\<close>

lemma run_registry_log:
  "\<exists>more. registry_log (snd (run cu as s)) = registry_log (snd s) @ more"
proof (rule run_invariant [where P = "\<lambda>x. \<exists>more. registry_log (snd x) = registry_log (snd s) @ more"])
  fix x :: "'a state" and e
  assume "\<exists>more. registry_log (snd x) = registry_log (snd s) @ more"
  then show "\<exists>more. registry_log (snd (onScriptParsed cu e x)) = registry_log (snd s) @ more"
    using onScriptParsed_registry [of cu e x] by auto
qed auto

section \<open>The paused details\<close>

lemma deliver_paused:
  "0 < listenerCount (snd s) (t_target (fst s)) Debugger ''paused'' \<Longrightarrow>
     t_pausedDetails (fst (deliver cu (Paused p) s)) = Value p"
  by (cases "listenerCount (snd s) (t_target (fst s)) Debugger ''paused''")
    (simp_all add: deliver_def)

lemma deliver_resumed:
  "0 < listenerCount (snd s) (t_target (fst s)) Debugger ''resumed'' \<Longrightarrow>
     t_pausedDetails (fst (deliver cu Resumed s)) = Null"
  by (cases "listenerCount (snd s) (t_target (fst s)) Debugger ''resumed''")
    (simp_all add: deliver_def)

lemma deliver_unheard:
  "listenerCount (snd s) (t_target (fst s)) (event_domain ev) (event_name ev) = 0 \<Longrightarrow>
     deliver cu ev s = s"
  by (simp add: deliver_def)

text \<open>Only the listeners for "paused" and "resumed" write the paused details.\<close>

lemma step_keeps_pausedDetails:
  assumes "\<And>p. a \<noteq> Deliver (Paused p)" and "a \<noteq> Deliver Resumed"
  shows "t_pausedDetails (fst (step cu a s)) = t_pausedDetails (fst s)"
proof (cases a)
  case (Deliver ev)
  have not_paused: "ev \<noteq> Paused p" for p
    using assms(1) [of p] Deliver by simp
  have not_resumed: "ev \<noteq> Resumed"
    using assms(2) Deliver by simp
  have "t_pausedDetails (fst (listener cu ev x)) = t_pausedDetails (fst s)"
    if "t_pausedDetails (fst x) = t_pausedDetails (fst s)" for x
  proof (cases ev)
    case (Paused p)
    with not_paused show ?thesis by blast
  next
    case Resumed
    with not_resumed show ?thesis by blast
  qed (use that in simp_all)
  then have "t_pausedDetails (fst (deliver cu ev s)) = t_pausedDetails (fst s)"
    unfolding deliver_def
    using funpow_invariant [where P = "\<lambda>x. t_pausedDetails (fst x) = t_pausedDetails (fst s)"
        and f = "listener cu ev" and s = s]
    by blast
  with Deliver show ?thesis by simp
qed (simp_all add: dispose_reset)

lemma last_pause_snoc:
  "last_pause (as @ [a]) = (case a of Deliver (Paused p) \<Rightarrow> Some p | _ \<Rightarrow> last_pause as)"
  by (induction as) (auto split: option.splits action.splits protocol_event.splits)

text \<open>
  Whenever payload is held, it is that of the last "paused" event, and the listener for
  "paused" is registered.
\<close>

lemma run_pausedDetails:
  assumes "absent (t_pausedDetails (fst s))"
  shows "t_pausedDetails (fst (run cu as s)) = Value q \<Longrightarrow>
           last_pause as = Some q
           \<and> 0 < listenerCount (snd (run cu as s)) (t_target (fst s)) Debugger ''paused''"
proof (induction as arbitrary: q rule: rev_induct)
  case Nil
  with assms show ?case by (simp add: absent_def)
next
  case (snoc a as)
  define x where "x = run cu as s"
  have run: "run cu (as @ [a]) s = step cu a x"
    by (simp add: run_append x_def)
  have g: "t_target (fst x) = t_target (fst s)"
    by (simp add: x_def run_identity)
  have IH: "t_pausedDetails (fst x) = Value q' \<Longrightarrow>
      last_pause as = Some q'
      \<and> 0 < listenerCount (snd x) (t_target (fst s)) Debugger ''paused''" for q'
    using snoc.IH [of q'] by (simp add: x_def)
  have keep: "0 < listenerCount (snd x) (t_target (fst s)) Debugger ''paused'' \<Longrightarrow>
      0 < listenerCount (snd (step cu a x)) (t_target (fst s)) Debugger ''paused''"
    using step_listenerCount [of "Suc 0" x _ _ _ cu a] by (simp add: Suc_le_eq)
  have held: "t_pausedDetails (fst (step cu a x)) = Value q"
    using snoc.prems by (simp add: run)
  consider (paused) p where "a = Deliver (Paused p)"
    | (resumed) "a = Deliver Resumed"
    | (other) "\<And>p. a \<noteq> Deliver (Paused p)" "a \<noteq> Deliver Resumed"
    by blast
  then have "last_pause (as @ [a]) = Some q
      \<and> 0 < listenerCount (snd (step cu a x)) (t_target (fst s)) Debugger ''paused''"
  proof cases
    case (paused p)
    show ?thesis
    proof (cases "listenerCount (snd x) (t_target (fst x)) Debugger ''paused'' = 0")
      case True
      then have "step cu a x = x"
        by (simp add: paused deliver_unheard)
      with held have "t_pausedDetails (fst x) = Value q" by simp
      with IH [of q] True g show ?thesis by simp
    next
      case False
      then have "t_pausedDetails (fst (step cu a x)) = Value p"
        by (simp add: paused deliver_paused)
      with held have "p = q" by simp
      moreover have "0 < listenerCount (snd (step cu a x)) (t_target (fst s)) Debugger ''paused''"
        using False g keep by simp
      ultimately show ?thesis
        by (simp add: last_pause_snoc paused)
    qed
  next
    case resumed
    show ?thesis
    proof (cases "listenerCount (snd x) (t_target (fst x)) Debugger ''resumed'' = 0")
      case True
      then have same: "step cu a x = x"
        by (simp add: resumed deliver_unheard)
      with held have "t_pausedDetails (fst x) = Value q" by simp
      with IH [of q] show ?thesis
        unfolding same by (simp add: last_pause_snoc resumed)
    next
      case False
      then have "t_pausedDetails (fst (step cu a x)) = Null"
        by (simp add: resumed deliver_resumed)
      with held show ?thesis by simp
    qed
  next
    case other
    have "t_pausedDetails (fst (step cu a x)) = t_pausedDetails (fst x)"
      using other by (rule step_keeps_pausedDetails)
    with held have "t_pausedDetails (fst x) = Value q" by simp
    moreover have "last_pause (as @ [a]) = last_pause as"
      using other by (auto simp: last_pause_snoc split: action.splits protocol_event.splits)
    ultimately show ?thesis
      using IH [of q] keep by simp
  qed
  then show ?case by (simp add: run)
qed

lemma Thread_new_fst:
  "t_target (fst (Thread_new g w)) = g"
  "t_threadId (fst (Thread_new g w)) = pre_increment (lastThreadId w)"
  "t_threadName (fst (Thread_new g w)) = []"
  "t_pausedDetails (fst (Thread_new g w)) = Undefined"
  "t_scripts (fst (Thread_new g w)) = allocated w"
  by (simp_all add: Thread_new_def Let_def)

lemma Thread_new_snd:
  "lastThreadId (snd (Thread_new g w)) = pre_increment (lastThreadId w)"
  "allocated (snd (Thread_new g w)) = allocated w + 1"
  "map_store (snd (Thread_new g w)) = (map_store w)(allocated w := [])"
  "cdp_log (snd (Thread_new g w)) = cdp_log w"
  "registry_log (snd (Thread_new g w)) = registry_log w"
  by (simp_all add: Thread_new_def Let_def)

end
